theory Spec2Isabelle
  imports Complex_Main
begin

section \<open>Python strings: whitespace, \<open>split\<close>, \<open>strip\<close>, \<open>join\<close>\<close>

text \<open>
  The program tokenises with \<^verbatim>\<open>str.split()\<close> (no argument: split at runs of whitespace,
  no empty token), strips with \<^verbatim>\<open>str.strip()\<close> and joins with \<^verbatim>\<open>sep.join(xs)\<close>.
  A string is a list of characters; \<open>isspace\<close> is \<^verbatim>\<open>str.isspace\<close> on the code points
  below 256 (tab, line feed, vertical tab, form feed, carriage return, the four
  separators 0x1C..0x1F, space, 0x85 and 0xA0).
\<close>

definition isspace :: "char \<Rightarrow> bool" where
  "isspace c =
     (c \<in> {CHR 0x09, CHR 0x0A, CHR 0x0B, CHR 0x0C, CHR 0x0D, CHR 0x1C, CHR 0x1D, CHR 0x1E,
            CHR 0x1F, CHR 0x20, CHR 0x85, CHR 0xA0})"

text \<open>
  \<open>split_from w cs\<close> scans \<open>cs\<close> with the token read so far in \<open>w\<close>: a whitespace
  character closes a non-empty token, any other character extends it.
\<close>

fun split_from :: "string \<Rightarrow> string \<Rightarrow> string list" where
  "split_from w [] = (if w = [] then [] else [w])"
| "split_from w (c # cs) =
     (if isspace c then (if w = [] then split_from [] cs else w # split_from [] cs)
      else split_from (w @ [c]) cs)"

definition split :: "string \<Rightarrow> string list" where
  "split s = split_from [] s"

definition strip :: "string \<Rightarrow> string" where
  "strip s = rev (dropWhile isspace (rev (dropWhile isspace s)))"

fun join :: "string \<Rightarrow> string list \<Rightarrow> string" where
  "join sep [] = []"
| "join sep [x] = x"
| "join sep (x # y # ys) = x @ sep @ join sep (y # ys)"

section \<open>Fragments and chunks\<close>

text \<open>
  \<^verbatim>\<open>extract_elements\<close> and \<^verbatim>\<open>chunk_elements_by_tokens\<close> both produce dictionaries with
  exactly the keys \<^verbatim>\<open>"text"\<close>, \<^verbatim>\<open>"html"\<close> and \<^verbatim>\<open>"tag"\<close>.
\<close>

record element =
  el_text :: string
  el_html :: string
  el_tag :: string

text \<open>
  The chunk appended at a flush (lines 74-78 and 89-93): the pending tokens joined by
  one space, the pending markups concatenated, and \<^verbatim>\<open>current_tag\<close>, which is set to
  \<^verbatim>\<open>"div"\<close> once and never assigned again.
\<close>

definition current_tag :: string where
  "current_tag = ''div''"

definition flush :: "string list \<Rightarrow> string list \<Rightarrow> element" where
  "flush current_tokens current_html =
     \<lparr>el_text = join '' '' current_tokens, el_html = concat current_html, el_tag = current_tag\<rparr>"

text \<open>
  The \<^verbatim>\<open>for el in elements\<close> loop of \<^verbatim>\<open>chunk_elements_by_tokens\<close>, with its four
  variables as arguments; the empty list is the end of the loop, where the last chunk
  is flushed.
\<close>

fun chunk_loop ::
  "int \<Rightarrow> element list \<Rightarrow> element list \<Rightarrow> string list \<Rightarrow> string list \<Rightarrow> int \<Rightarrow> element list"
where
  "chunk_loop max_tokens [] chunks current_tokens current_html token_count =
     (if current_tokens \<noteq> [] then chunks @ [flush current_tokens current_html] else chunks)"
| "chunk_loop max_tokens (el # els) chunks current_tokens current_html token_count =
     (let tokens = split (el_text el) in
      if tokens = [] then chunk_loop max_tokens els chunks current_tokens current_html token_count
      else if token_count + int (length tokens) > max_tokens \<and> current_tokens \<noteq> [] then
        chunk_loop max_tokens els (chunks @ [flush current_tokens current_html])
          tokens [el_html el] (int (length tokens))
      else
        chunk_loop max_tokens els chunks
          (current_tokens @ tokens) (current_html @ [el_html el])
          (token_count + int (length tokens)))"

definition chunk_elements_by_tokens :: "element list \<Rightarrow> int \<Rightarrow> element list" where
  "chunk_elements_by_tokens elements max_tokens = chunk_loop max_tokens elements [] [] [] 0"

section \<open>The parsed page\<close>

text \<open>
  The tree that \<^verbatim>\<open>BeautifulSoup(..., "html.parser")\<close> builds, as far as the program
  reads it: an element (\<^verbatim>\<open>Tag\<close>) has a name and its children in document order, a
  string node has its class and its string. The document object is itself an element.
  Attributes matter to the serialisation \<^verbatim>\<open>str(tag)\<close> only, which is the parser library's
  and is taken as a parameter \<open>str\<close> wherever the program calls it.

  The class of a string node is the one the parser gave it: \<^verbatim>\<open>NavigableString\<close> itself
  (\<open>PlainString\<close>) for ordinary text, the subclasses \<^verbatim>\<open>Comment\<close>, \<^verbatim>\<open>CData\<close>,
  \<^verbatim>\<open>Declaration\<close>, \<^verbatim>\<open>Doctype\<close> and \<^verbatim>\<open>ProcessingInstruction\<close> for markup of these kinds,
  and for text inside \<^verbatim>\<open>rt\<close>, \<^verbatim>\<open>rp\<close>, \<^verbatim>\<open>style\<close>, \<^verbatim>\<open>script\<close> and \<^verbatim>\<open>template\<close> the subclass
  that the tree builder's table \<^verbatim>\<open>string_containers\<close> names for that element.
\<close>

datatype string_class =
    PlainString
  | CData
  | Comment
  | Declaration
  | Doctype
  | ProcessingInstruction
  | RubyTextString
  | RubyParenthesisString
  | Stylesheet
  | Script
  | TemplateString

datatype node =
    NavigableString string_class string
  | Tag (name: string) (contents: "node list")

text \<open>An element followed by the elements below it, in document order.\<close>

fun tags_of :: "node \<Rightarrow> node list" where
  "tags_of (NavigableString k s) = []"
| "tags_of (Tag n cs) = Tag n cs # concat (map tags_of cs)"

text \<open>\<^verbatim>\<open>tag.find_all(recursive=True)\<close>: every element below \<open>tag\<close>, not \<open>tag\<close> itself.\<close>

definition find_all :: "node \<Rightarrow> node list" where
  "find_all t = (case t of NavigableString k s \<Rightarrow> [] | Tag n cs \<Rightarrow> concat (map tags_of cs))"

text \<open>The string nodes below a node, in document order, each with its class.\<close>

fun all_strings :: "node \<Rightarrow> (string_class \<times> string) list" where
  "all_strings (NavigableString k s) = [(k, s)]"
| "all_strings (Tag n cs) = concat (map all_strings cs)"

text \<open>
  The string classes that \<^verbatim>\<open>get_text\<close> reads when it is called on an element of a given
  name (\<^verbatim>\<open>Tag.interesting_string_types\<close>): the class that \<^verbatim>\<open>string_containers\<close> names for
  the element, else \<^verbatim>\<open>NavigableString\<close> and \<^verbatim>\<open>CData\<close>. A string counts when its class is
  one of these classes exactly, not a subclass.
\<close>

definition string_containers :: "string \<rightharpoonup> string_class" where
  "string_containers =
     [''rt'' \<mapsto> RubyTextString, ''rp'' \<mapsto> RubyParenthesisString, ''style'' \<mapsto> Stylesheet,
      ''script'' \<mapsto> Script, ''template'' \<mapsto> TemplateString]"

definition interesting_string_types :: "string \<Rightarrow> string_class list" where
  "interesting_string_types n =
     (case string_containers n of Some k \<Rightarrow> [k] | None \<Rightarrow> [PlainString, CData])"

text \<open>
  \<^verbatim>\<open>tag.get_text(sep, strip=True)\<close>: every string below the element whose class is of
  interest to the element is stripped, the ones left empty are dropped, and the rest
  are joined by \<open>sep\<close>.
\<close>

definition get_text :: "string \<Rightarrow> node \<Rightarrow> string" where
  "get_text sep t =
     join sep
       (filter (\<lambda>s. s \<noteq> [])
          (map (\<lambda>(k, s). strip s)
             (filter (\<lambda>(k, s). k \<in> set (interesting_string_types (name t))) (all_strings t))))"

text \<open>\<^verbatim>\<open>soup.body or soup\<close>: the first element named \<^verbatim>\<open>body\<close>, else the document.\<close>

definition body_or_soup :: "node \<Rightarrow> node" where
  "body_or_soup soup =
     (case find (\<lambda>t. name t = ''body'') (find_all soup) of Some b \<Rightarrow> b | None \<Rightarrow> soup)"

section \<open>The fragment extractor\<close>

definition blacklist :: "string set" where
  "blacklist = {''script'', ''style'', ''noscript'', ''header'', ''footer'', ''nav'',
                ''svg'', ''meta'', ''link'', ''iframe''}"

text \<open>The \<^verbatim>\<open>for tag in body.find_all(recursive=True)\<close> loop of \<^verbatim>\<open>extract_elements\<close>.\<close>

fun extract_loop :: "(node \<Rightarrow> string) \<Rightarrow> node list \<Rightarrow> element list \<Rightarrow> element list" where
  "extract_loop str [] elements = elements"
| "extract_loop str (tag # tags) elements =
     (if name tag \<in> blacklist then extract_loop str tags elements
      else
        let text = get_text '' '' tag in
        if text = [] then extract_loop str tags elements
        else if length (split text) < 5 then extract_loop str tags elements
        else extract_loop str tags
               (elements @ [\<lparr>el_text = text, el_html = str tag, el_tag = name tag\<rparr>]))"

definition extract_elements :: "(node \<Rightarrow> string) \<Rightarrow> node \<Rightarrow> element list" where
  "extract_elements str soup = (let body = body_or_soup soup in extract_loop str (find_all body) [])"

section \<open>The collaborators of the endpoint\<close>

text \<open>
  An exception is modelled by the text that \<^verbatim>\<open>str(e)\<close> gives for it: the only thing
  the handler of \<^verbatim>\<open>search_content\<close> reads. A computation that may raise returns
  \<open>Inl\<close> of that text.
\<close>

type_synonym exn = string

definition index_error :: exn where
  "index_error = ''list index out of range''"

text \<open>\<^verbatim>\<open>xs[0]\<close>, which raises \<^verbatim>\<open>IndexError\<close> on the empty list.\<close>

definition first :: "'a list \<Rightarrow> exn + 'a" where
  "first xs = (case xs of [] \<Rightarrow> Inl index_error | x # _ \<Rightarrow> Inr x)"

text \<open>The values of a metadata dictionary: strings and the positional index.\<close>

datatype jvalue = JStr string | JInt int

type_synonym metadata = "string \<rightharpoonup> jvalue"

text \<open>A document as stored in a collection: its id, its text and its metadata.\<close>

type_synonym item = "string \<times> string \<times> metadata"

text \<open>
  The dictionary that \<^verbatim>\<open>collection.query\<close> returns, as far as the program reads it;
  \<open>None\<close> is a key that is absent. The distances are numbers that the program passes
  on without computing with them; they are modelled as reals.
\<close>

record query_result =
  documents :: "string list list option"
  metadatas :: "metadata list list option"
  distances :: "real list list option"

text \<open>
  The calls the endpoint makes to the outside, in the order it makes them, and the
  table of collections of the index engine.
\<close>

datatype call =
    Get string
  | CreateCollection string
  | Add string
  | Query string
  | DeleteCollection string
  | Print string

record world =
  collections :: "string \<rightharpoonup> item list"
  calls :: "call list"

definition call :: "call \<Rightarrow> world \<Rightarrow> world" where
  "call c w = w\<lparr>calls := calls w @ [c]\<rparr>"

text \<open>
  What the outside answers. Each collaborator may raise (\<open>Inl\<close>, or \<open>Some\<close> for a call
  with no result); nothing else is assumed about them.
  \<^item> \<open>requests_get\<close>: \<^verbatim>\<open>requests.get(url, timeout=10).content\<close>;
  \<^item> \<open>html_parser\<close>: \<^verbatim>\<open>BeautifulSoup(content, "html.parser")\<close>;
  \<^item> \<open>str_tag\<close>: \<^verbatim>\<open>str(tag)\<close>;
  \<^item> \<open>uuid4_hex\<close>: \<^verbatim>\<open>uuid.uuid4().hex\<close>;
  \<^item> \<open>create_raises\<close>, \<open>add_raises\<close>, \<open>delete_raises\<close>: whether
    \<^verbatim>\<open>create_collection\<close>, \<^verbatim>\<open>collection.add\<close> and \<^verbatim>\<open>delete_collection\<close> raise;
  \<^item> \<open>query_answer\<close>: \<^verbatim>\<open>collection.query\<close> on the stored items, the query text and
    \<^verbatim>\<open>n_results\<close>.
\<close>

record env =
  requests_get :: "string \<Rightarrow> exn + string"
  html_parser :: "string \<Rightarrow> exn + node"
  str_tag :: "node \<Rightarrow> string"
  uuid4_hex :: string
  create_raises :: "string \<Rightarrow> exn option"
  add_raises :: "string \<Rightarrow> item list \<Rightarrow> exn option"
  query_answer :: "item list \<Rightarrow> string \<Rightarrow> nat \<Rightarrow> exn + query_result"
  delete_raises :: "string \<Rightarrow> exn option"

section \<open>The endpoint\<close>

text \<open>
  \<^verbatim>\<open>for tag in soup(["script", ...]): tag.decompose()\<close>: every element with one of the
  names is removed from the tree, with everything below it.
\<close>

definition decomposed :: "string list \<Rightarrow> node \<Rightarrow> bool" where
  "decomposed names c = (case c of NavigableString k s \<Rightarrow> False | Tag n cs \<Rightarrow> n \<in> set names)"

fun decompose :: "string list \<Rightarrow> node \<Rightarrow> node" where
  "decompose names (NavigableString k s) = NavigableString k s"
| "decompose names (Tag n cs) =
     Tag n (concat (map (\<lambda>c. if decomposed names c then [] else [decompose names c]) cs))"

text \<open>\<^verbatim>\<open>str(i)\<close> for an index \<open>i\<close>.\<close>

fun str_nat :: "nat \<Rightarrow> string" where
  "str_nat n =
     (if n < 10 then [char_of (48 + n)] else str_nat (n div 10) @ [char_of (48 + n mod 10)])"

declare str_nat.simps [simp del]

text \<open>Lines 109-120: the page is fetched, parsed, cleaned, extracted and chunked.\<close>

definition fetch_chunks :: "env \<Rightarrow> string \<Rightarrow> exn + element list" where
  "fetch_chunks e url =
     (case requests_get e url of
        Inl ex \<Rightarrow> Inl ex
      | Inr content \<Rightarrow>
          (case html_parser e content of
             Inl ex \<Rightarrow> Inl ex
           | Inr parsed \<Rightarrow>
               let soup = decompose [''script'', ''style'', ''header'', ''footer'', ''nav''] parsed;
                   raw_elements = extract_elements (str_tag e) soup
               in Inr (chunk_elements_by_tokens raw_elements 500)))"

text \<open>Lines 135-144: the ids and the metadata of the chunks, as given to \<^verbatim>\<open>collection.add\<close>.\<close>

definition chunk_metadata :: "string \<Rightarrow> element list \<Rightarrow> nat \<Rightarrow> metadata" where
  "chunk_metadata url elements i =
     [''source'' \<mapsto> JStr url, ''index'' \<mapsto> JInt (int i),
      ''tag'' \<mapsto> JStr (el_tag (elements ! i)), ''html'' \<mapsto> JStr (map el_html elements ! i)]"

definition index_items :: "string \<Rightarrow> element list \<Rightarrow> item list" where
  "index_items url elements =
     (let texts = map el_text elements;
          ids = map str_nat [0..<length texts];
          metadatas = map (chunk_metadata url elements) [0..<length texts]
      in zip ids (zip texts metadatas))"

text \<open>One entry of the response.\<close>

record search_result =
  res_text :: string
  res_html :: jvalue
  res_tag :: jvalue
  res_score :: real

text \<open>
  Lines 167-174, the loop \<^verbatim>\<open>for i, doc in enumerate(docs)\<close>. \<^verbatim>\<open>distances[i]\<close> raises where
  the list is too short; \<^verbatim>\<open>metas[i]\<close> is guarded.
\<close>

definition meta_get :: "metadata \<Rightarrow> string \<Rightarrow> jvalue" where
  "meta_get meta k = (case meta k of None \<Rightarrow> JStr [] | Some v \<Rightarrow> v)"

fun format_loop ::
  "nat \<Rightarrow> string list \<Rightarrow> metadata list \<Rightarrow> real list \<Rightarrow> search_result list
   \<Rightarrow> exn + search_result list"
where
  "format_loop i [] metas dists formatted_results = Inr formatted_results"
| "format_loop i (doc # docs) metas dists formatted_results =
     (let meta = (if i < length metas then metas ! i else Map.empty) in
      if i < length dists then
        format_loop (Suc i) docs metas dists
          (formatted_results @
             [\<lparr>res_text = doc, res_html = meta_get meta ''html'', res_tag = meta_get meta ''tag'',
               res_score = dists ! i\<rparr>])
      else Inl index_error)"

text \<open>Lines 161-174: the formatting of the answer of the index.\<close>

definition format_results :: "query_result \<Rightarrow> exn + search_result list" where
  "format_results results =
     (case documents results of
        None \<Rightarrow> Inr []
      | Some dss \<Rightarrow>
          (case first dss of
             Inl ex \<Rightarrow> Inl ex
           | Inr docs \<Rightarrow>
               (case (case metadatas results of
                        None \<Rightarrow> Inr (replicate (length docs) Map.empty)
                      | Some mss \<Rightarrow> first mss) of
                  Inl ex \<Rightarrow> Inl ex
                | Inr metas \<Rightarrow>
                    (case (case distances results of
                             None \<Rightarrow> Inr (replicate (length docs) 0)
                           | Some xss \<Rightarrow> first xss) of
                       Inl ex \<Rightarrow> Inl ex
                     | Inr dists \<Rightarrow> format_loop 0 docs metas dists []))))"

text \<open>The body of a response and the response with its status.\<close>

datatype body = Results "search_result list" | Error string

type_synonym response = "body \<times> nat"

text \<open>
  Lines 125-176: the collection is created and filled, the query is asked, the
  collection is deleted and the answer is formatted. \<open>Inl\<close> is an exception on its way
  to the handler, with the world as it is when the exception is raised.
\<close>

definition index_and_query ::
  "env \<Rightarrow> string \<Rightarrow> string \<Rightarrow> element list \<Rightarrow> world \<Rightarrow> (exn \<times> world) + (response \<times> world)"
where
  "index_and_query e url query_text elements w =
     (let texts = map el_text elements;
          collection_name = ''search_'' @ uuid4_hex e;
          w1 = call (CreateCollection collection_name) w
      in case create_raises e collection_name of
           Some ex \<Rightarrow> Inl (ex, w1)
         | None \<Rightarrow>
             let w2 = w1\<lparr>collections := (collections w1)(collection_name \<mapsto> [])\<rparr>;
                 items = index_items url elements;
                 w3 = call (Add collection_name) w2
             in case add_raises e collection_name items of
                  Some ex \<Rightarrow> Inl (ex, w3)
                | None \<Rightarrow>
                    let w4 = w3\<lparr>collections := (collections w3)(collection_name \<mapsto> items)\<rparr>;
                        w5 = call (Query collection_name) w4
                    in case query_answer e items query_text (min 10 (length texts)) of
                         Inl ex \<Rightarrow> Inl (ex, w5)
                       | Inr results \<Rightarrow>
                           let w6 = call (DeleteCollection collection_name) w5
                           in case delete_raises e collection_name of
                                Some ex \<Rightarrow> Inl (ex, w6)
                              | None \<Rightarrow>
                                  let w7 = w6\<lparr>collections :=
                                                (collections w6)(collection_name := None)\<rparr>
                                  in case format_results results of
                                       Inl ex \<Rightarrow> Inl (ex, w7)
                                     | Inr formatted_results \<Rightarrow>
                                         Inr ((Results formatted_results, 200), w7))"

text \<open>Lines 107-176, the \<^verbatim>\<open>try\<close> block.\<close>

definition search_try ::
  "env \<Rightarrow> string \<Rightarrow> string \<Rightarrow> world \<Rightarrow> (exn \<times> world) + (response \<times> world)"
where
  "search_try e url query_text w =
     (let w1 = call (Get url) w
      in case fetch_chunks e url of
           Inl ex \<Rightarrow> Inl (ex, w1)
         | Inr elements \<Rightarrow>
             if elements = [] then Inr ((Results [], 200), w1)
             else index_and_query e url query_text elements w1)"

text \<open>
  \<^verbatim>\<open>search_content\<close>. The request body is a JSON object whose values are strings;
  \<^verbatim>\<open>data.get(k)\<close> is \<open>None\<close> for a missing key, and \<^verbatim>\<open>not v\<close> holds of \<open>None\<close> and of the
  empty string. The handler prints the exception and answers 500 with its text.
\<close>

definition falsy :: "string option \<Rightarrow> bool" where
  "falsy v = (case v of None \<Rightarrow> True | Some s \<Rightarrow> s = [])"

definition search_content :: "env \<Rightarrow> (string \<rightharpoonup> string) \<Rightarrow> world \<Rightarrow> response \<times> world" where
  "search_content e data w =
     (let url = data ''url''; query_text = data ''query''
      in if falsy url \<or> falsy query_text then ((Error ''URL and Query are required'', 400), w)
         else
           (case search_try e (the url) (the query_text) w of
              Inl (ex, w') \<Rightarrow> ((Error ex, 500), call (Print (''Error: '' @ ex)) w')
            | Inr r \<Rightarrow> r))"

section \<open>Vocabulary of the properties\<close>

text \<open>
  The definitions of this section are not code of the program: they name what the
  properties below speak about.
\<close>

text \<open>A token: a non-empty string with no whitespace in it.\<close>

definition token :: "string \<Rightarrow> bool" where
  "token t = (t \<noteq> [] \<and> (\<forall>c \<in> set t. \<not> isspace c))"

text \<open>A fragment that \<^verbatim>\<open>chunk_elements_by_tokens\<close> does not skip: its text has a token.\<close>

definition has_tokens :: "element \<Rightarrow> bool" where
  "has_tokens f = (split (el_text f) \<noteq> [])"

text \<open>The tokens of a run of fragments, and the chunk that the run makes when flushed.\<close>

definition tokens_of :: "element list \<Rightarrow> string list" where
  "tokens_of g = concat (map (\<lambda>f. split (el_text f)) g)"

definition make_chunk :: "element list \<Rightarrow> element" where
  "make_chunk g = flush (tokens_of g) (map el_html g)"

text \<open>
  The loop of \<^verbatim>\<open>chunk_elements_by_tokens\<close> once more, with the same tests in the same
  order, keeping the fragments of every chunk instead of their joined text:
  \<open>chunk_groups\<close> is the list of the runs of fragments that the chunks are made of
  (lemma \<open>chunk_by_groups\<close> below).
\<close>

fun group_loop ::
  "int \<Rightarrow> element list \<Rightarrow> element list list \<Rightarrow> element list \<Rightarrow> element list list"
where
  "group_loop max_tokens [] groups current =
     (if tokens_of current \<noteq> [] then groups @ [current] else groups)"
| "group_loop max_tokens (el # els) groups current =
     (if split (el_text el) = [] then group_loop max_tokens els groups current
      else if int (length (tokens_of current)) + int (length (split (el_text el))) > max_tokens
              \<and> tokens_of current \<noteq> [] then
        group_loop max_tokens els (groups @ [current]) [el]
      else group_loop max_tokens els groups (current @ [el]))"

definition chunk_groups :: "element list \<Rightarrow> int \<Rightarrow> element list list" where
  "chunk_groups elements max_tokens = group_loop max_tokens elements [] []"

text \<open>
  A run of fragments is within the budget when its token count is at most the
  maximum, or when it is one fragment that is larger than the maximum.
\<close>

definition in_budget :: "int \<Rightarrow> element list \<Rightarrow> bool" where
  "in_budget m g =
     (int (length (tokens_of g)) \<le> m \<or> (\<exists>f. g = [f] \<and> int (length (split (el_text f))) > m))"

text \<open>Fragments for the examples.\<close>

definition ex_p :: element where
  "ex_p = \<lparr>el_text = ''one two'', el_html = ''<p>one two</p>'', el_tag = ''p''\<rparr>"

definition ex_li :: element where
  "ex_li = \<lparr>el_text = ''three  four'', el_html = ''<li>three  four</li>'', el_tag = ''li''\<rparr>"

definition ex_h1 :: element where
  "ex_h1 = \<lparr>el_text = ''a b c d e'', el_html = ''<h1>a b c d e</h1>'', el_tag = ''h1''\<rparr>"

definition ex_b :: element where
  "ex_b = \<lparr>el_text = ''six'', el_html = ''<b>six</b>'', el_tag = ''b''\<rparr>"

definition ex_img :: element where
  "ex_img = \<lparr>el_text = [], el_html = ''<img src=x>'', el_tag = ''img''\<rparr>"

definition ex_fox :: element where
  "ex_fox = \<lparr>el_text = ''the quick  brown fox jumps over'',
             el_html = ''<p>the quick  brown fox jumps over</p>'', el_tag = ''p''\<rparr>"

definition ex_quote :: element where
  "ex_quote = \<lparr>el_text = ''to be or not to be'', el_html = ''<q>to be or not to be</q>'',
               el_tag = ''q''\<rparr>"

text \<open>
  The fragment that \<^verbatim>\<open>extract_elements\<close> appends for an element, and the elements it
  appends one for.
\<close>

definition fragment_of :: "(node \<Rightarrow> string) \<Rightarrow> node \<Rightarrow> element" where
  "fragment_of str t = \<lparr>el_text = get_text '' '' t, el_html = str t, el_tag = name t\<rparr>"

definition qualifies :: "node \<Rightarrow> bool" where
  "qualifies t = (name t \<notin> blacklist \<and> 5 \<le> length (split (get_text '' '' t)))"

text \<open>A page for the examples, and a serialisation that gives the opening tag only.\<close>

definition ex_par :: node where
  "ex_par =
     Tag ''p''
       [NavigableString PlainString '' alpha beta  gamma '',
        Tag ''b'' [NavigableString PlainString ''delta''],
        NavigableString PlainString ''epsilon zeta'',
        NavigableString Comment ''a comment'',
        Tag ''rt'' [NavigableString RubyTextString ''ruby note'']]"

definition ex_noscript :: node where
  "ex_noscript = Tag ''noscript'' [ex_par]"

definition ex_soup :: node where
  "ex_soup =
     Tag ''[document]''
       [Tag ''html''
          [Tag ''head'' [Tag ''title'' [NavigableString PlainString ''A page'']],
           Tag ''body'' [ex_noscript, Tag ''span'' [NavigableString PlainString ''too short'']]]]"

definition ex_str :: "node \<Rightarrow> string" where
  "ex_str t = ''<'' @ name t @ ''>''"

text \<open>
  The entry that the formatting loop appends for the document at index \<open>i\<close>, and the
  entries for a list of documents counted from \<open>i\<close>.
\<close>

definition meta_at :: "metadata list \<Rightarrow> nat \<Rightarrow> metadata" where
  "meta_at metas i = (if i < length metas then metas ! i else Map.empty)"

definition entry :: "metadata list \<Rightarrow> real list \<Rightarrow> nat \<Rightarrow> string \<Rightarrow> search_result" where
  "entry metas dists i doc =
     \<lparr>res_text = doc, res_html = meta_get (meta_at metas i) ''html'',
      res_tag = meta_get (meta_at metas i) ''tag'', res_score = dists ! i\<rparr>"

definition entries :: "metadata list \<Rightarrow> real list \<Rightarrow> nat \<Rightarrow> string list \<Rightarrow> search_result list" where
  "entries metas dists i docs = map (\<lambda>(j, doc). entry metas dists j doc) (enumerate i docs)"

text \<open>
  Collaborators for the examples: the page is fetched and parsed without failure, the
  index engine never fails, and the query gives the answer \<open>answer\<close>.
\<close>

definition ex_world :: world where
  "ex_world = \<lparr>collections = Map.empty, calls = []\<rparr>"

definition ex_env :: "node \<Rightarrow> exn + query_result \<Rightarrow> env" where
  "ex_env page answer =
     \<lparr>requests_get = (\<lambda>url. Inr ''<html>''), html_parser = (\<lambda>content. Inr page),
      str_tag = ex_str, uuid4_hex = ''0123abcd'',
      create_raises = (\<lambda>n. None), add_raises = (\<lambda>n items. None),
      query_answer = (\<lambda>items q k. answer), delete_raises = (\<lambda>n. None)\<rparr>"

definition ex_request :: "string \<rightharpoonup> string" where
  "ex_request = [''url'' \<mapsto> ''http://example.org/'', ''query'' \<mapsto> ''greek letters'']"

definition ex_empty_page :: node where
  "ex_empty_page = Tag ''[document]'' [Tag ''body'' [Tag ''span'' [NavigableString PlainString ''too short'']]]"

definition ex_answer :: query_result where
  "ex_answer =
     \<lparr>documents = Some [[''first text'', ''second text'']],
      metadatas = Some [[[''html'' \<mapsto> JStr ''<p>first</p>'', ''tag'' \<mapsto> JStr ''div'']]],
      distances = None\<rparr>"


definition ex_first :: search_result where
  "ex_first = \<lparr>res_text = ''first text'', res_html = JStr ''<p>first</p>'', res_tag = JStr ''div'',
                res_score = 0\<rparr>"

definition ex_second :: search_result where
  "ex_second = \<lparr>res_text = ''second text'', res_html = JStr [], res_tag = JStr [], res_score = 0\<rparr>"

text \<open>The same documents and metadata, with one distance only.\<close>

definition ex_short :: query_result where
  "ex_short =
     \<lparr>documents = Some [[''first text'', ''second text'']],
      metadatas = Some [[[''html'' \<mapsto> JStr ''<p>first</p>'', ''tag'' \<mapsto> JStr ''div'']]],
      distances = Some [[1]]\<rparr>"




section \<open>Tokens\<close>

lemma split_from_nospace:
  "\<forall>c \<in> set t. \<not> isspace c \<Longrightarrow> split_from w (t @ cs) = split_from (w @ t) cs"
  by (induction t arbitrary: w) simp_all

lemma split_from_tokens:
  "\<forall>c \<in> set w. \<not> isspace c \<Longrightarrow> t \<in> set (split_from w cs) \<Longrightarrow> token t"
proof (induction cs arbitrary: w)
  case Nil
  then show ?case by (cases "w = []") (simp_all add: token_def)
next
  case (Cons c cs)
  show ?case
  proof (cases "isspace c")
    case True
    have e: "\<forall>c \<in> set ([]::string). \<not> isspace c" by simp
    from True Cons.prems have "t = w \<and> w \<noteq> [] \<or> t \<in> set (split_from [] cs)"
      by (cases "w = []") simp_all
    then show ?thesis
    proof
      assume "t = w \<and> w \<noteq> []"
      with Cons.prems(1) show ?thesis by (simp add: token_def)
    next
      assume "t \<in> set (split_from [] cs)"
      with Cons.IH [OF e] show ?thesis .
    qed
  next
    case False
    with Cons.prems(1) have w: "\<forall>x \<in> set (w @ [c]). \<not> isspace x" by simp
    from False Cons.prems(2) have "t \<in> set (split_from (w @ [c]) cs)" by simp
    with Cons.IH [OF w] show ?thesis .
  qed
qed

lemma split_tokens: "t \<in> set (split s) \<Longrightarrow> token t"
  using split_from_tokens [of "[]" t s] by (simp add: split_def)

lemma isspace_space: "isspace CHR '' ''"
  by (simp add: isspace_def)

text \<open>Joining tokens by one space and splitting again gives the tokens back.\<close>

lemma split_join:
  "\<forall>t \<in> set ts. token t \<Longrightarrow> split (join '' '' ts) = ts"
proof (induction ts)
  case Nil
  then show ?case by (simp add: split_def)
next
  case (Cons x ts)
  then have x: "x \<noteq> []" "\<forall>c \<in> set x. \<not> isspace c"
    by (simp_all add: token_def)
  show ?case
  proof (cases ts)
    case Nil
    then show ?thesis
      using x split_from_nospace [of x "[]" "[]"] by (simp add: split_def)
  next
    case (Cons y ys)
    have "split (join '' '' (x # y # ys)) = split_from x (CHR '' '' # join '' '' (y # ys))"
      using x split_from_nospace [of x "[]" "CHR '' '' # join '' '' (y # ys)"]
      by (simp add: split_def)
    also have "\<dots> = x # split (join '' '' (y # ys))"
      using x by (simp add: split_def isspace_space)
    finally show ?thesis
      using Cons.IH Cons.prems Cons by simp
  qed
qed

section \<open>Properties of the chunk assembler\<close>

lemma tokens_of_append: "tokens_of (g @ h) = tokens_of g @ tokens_of h"
  by (simp add: tokens_of_def)

lemma tokens_of_single: "tokens_of [f] = split (el_text f)"
  by (simp add: tokens_of_def)

lemma tokens_of_token: "t \<in> set (tokens_of g) \<Longrightarrow> token t"
  by (auto simp: tokens_of_def dest: split_tokens)

lemma tokens_of_concat: "tokens_of (concat gs) = concat (map tokens_of gs)"
  by (induction gs) (simp_all add: tokens_of_append, simp add: tokens_of_def)

lemma tokens_of_filter: "tokens_of (filter has_tokens fs) = tokens_of fs"
  by (induction fs) (simp_all add: tokens_of_def has_tokens_def)

lemma split_make_chunk: "split (el_text (make_chunk g)) = tokens_of g"
  by (simp add: make_chunk_def flush_def split_join tokens_of_token)

lemma html_make_chunk: "el_html (make_chunk g) = concat (map el_html g)"
  by (simp add: make_chunk_def flush_def)

lemma concat_map_groups:
  "concat (map (\<lambda>g. concat (map h g)) gs) = concat (map h (concat gs))"
  by (induction gs) simp_all

text \<open>The chunks are the flushed groups.\<close>

lemma chunk_loop_groups:
  "chunk_loop m els (map make_chunk groups) (tokens_of cur) (map el_html cur)
     (int (length (tokens_of cur)))
   = map make_chunk (group_loop m els groups cur)"
proof (induction els arbitrary: groups cur)
  case Nil
  show ?case by (simp add: make_chunk_def)
next
  case (Cons el els)
  show ?case
    using Cons.IH [of groups cur] Cons.IH [of "groups @ [cur]" "[el]"]
      Cons.IH [of groups "cur @ [el]"]
    by (simp add: Let_def tokens_of_append tokens_of_single make_chunk_def)
qed

lemma chunk_by_groups:
  "chunk_elements_by_tokens fs m = map make_chunk (chunk_groups fs m)"
  using chunk_loop_groups [of m fs "[]" "[]"]
  by (simp add: chunk_elements_by_tokens_def chunk_groups_def tokens_of_def)

lemma tokens_of_empty: "\<forall>f \<in> set g. has_tokens f \<Longrightarrow> tokens_of g = [] \<longleftrightarrow> g = []"
  by (cases g) (auto simp: tokens_of_def has_tokens_def)

text \<open>The groups, in order, are the fragments that have a token, in order.\<close>

lemma group_loop_concat:
  "\<forall>f \<in> set cur. has_tokens f \<Longrightarrow>
   concat (group_loop m els groups cur) = concat groups @ cur @ filter has_tokens els"
proof (induction els arbitrary: groups cur)
  case Nil
  then show ?case using tokens_of_empty [of cur] by auto
next
  case (Cons el els)
  show ?case
  proof (cases "has_tokens el")
    case False
    then show ?thesis using Cons.IH [OF Cons.prems] by (simp add: has_tokens_def)
  next
    case True
    then have a: "\<forall>f \<in> set [el]. has_tokens f" and b: "\<forall>f \<in> set (cur @ [el]). has_tokens f"
      using Cons.prems by simp_all
    show ?thesis
      using True Cons.IH [OF a, of "groups @ [cur]"] Cons.IH [OF b, of groups]
      by (simp add: has_tokens_def)
  qed
qed

lemma chunk_groups_concat: "concat (chunk_groups fs m) = filter has_tokens fs"
  using group_loop_concat [of "[]" m fs "[]"] by (simp add: chunk_groups_def)

lemma in_budget_single: "in_budget m [f]"
  by (auto simp: in_budget_def tokens_of_def)

text \<open>The invariant of the loop: every group is non-empty and within the budget.\<close>

lemma group_loop_in_budget:
  "\<forall>g \<in> set groups. g \<noteq> [] \<and> in_budget m g \<Longrightarrow> cur = [] \<or> in_budget m cur \<Longrightarrow>
   \<forall>f \<in> set cur. has_tokens f \<Longrightarrow>
   \<forall>g \<in> set (group_loop m els groups cur). g \<noteq> [] \<and> in_budget m g"
proof (induction els arbitrary: groups cur)
  case Nil
  then show ?case using tokens_of_empty [of cur] by auto
next
  case (Cons el els)
  show ?case
  proof (cases "has_tokens el")
    case False
    then show ?thesis using Cons.IH [OF Cons.prems] by (simp add: has_tokens_def)
  next
    case True
    have ne: "tokens_of cur = [] \<longleftrightarrow> cur = []"
      using tokens_of_empty Cons.prems(3) by blast
    show ?thesis
    proof (cases "int (length (tokens_of cur)) + int (length (split (el_text el))) > m
                  \<and> tokens_of cur \<noteq> []")
      case flush: True
      have g: "\<forall>g \<in> set (groups @ [cur]). g \<noteq> [] \<and> in_budget m g"
        using Cons.prems(1,2) flush ne by auto
      have c: "[el] = [] \<or> in_budget m [el]" by (simp add: in_budget_single)
      have h: "\<forall>f \<in> set [el]. has_tokens f" using True by simp
      have "group_loop m (el # els) groups cur = group_loop m els (groups @ [cur]) [el]"
        using True flush by (auto simp: has_tokens_def)
      then show ?thesis using Cons.IH [OF g c h] by simp
    next
      case keep: False
      have c: "cur @ [el] = [] \<or> in_budget m (cur @ [el])"
      proof (cases "cur = []")
        case True
        then show ?thesis by (simp add: in_budget_single)
      next
        case False
        with keep ne show ?thesis
          by (simp add: in_budget_def tokens_of_append tokens_of_single)
      qed
      have h: "\<forall>f \<in> set (cur @ [el]). has_tokens f" using True Cons.prems(3) by simp
      have "group_loop m (el # els) groups cur = group_loop m els groups (cur @ [el])"
        using True keep by (auto simp: has_tokens_def)
      then show ?thesis using Cons.IH [OF Cons.prems(1) c h] by simp
    qed
  qed
qed

lemma chunk_groups_in_budget: "g \<in> set (chunk_groups fs m) \<Longrightarrow> g \<noteq> [] \<and> in_budget m g"
  using group_loop_in_budget [of "[]" m "[]" fs] by (simp add: chunk_groups_def)

lemma member_tokens_le: "f \<in> set g \<Longrightarrow> length (split (el_text f)) \<le> length (tokens_of g)"
  by (induction g) (auto simp: tokens_of_def)

lemma in_budget_oversized:
  assumes "in_budget m g" "f \<in> set g" "int (length (split (el_text f))) > m"
  shows "g = [f]"
proof -
  from member_tokens_le [OF assms(2)] assms(3) have "\<not> int (length (tokens_of g)) \<le> m"
    by linarith
  with assms(1) obtain f' where "g = [f']" by (auto simp: in_budget_def)
  with assms(2) show ?thesis by simp
qed

lemma oversized_alone:
  assumes "0 \<le> m" "f \<in> set fs" "int (length (split (el_text f))) > m"
  shows "[f] \<in> set (chunk_groups fs m)"
proof -
  from assms(1,3) have "has_tokens f" by (auto simp: has_tokens_def)
  with assms(2) have "f \<in> set (concat (chunk_groups fs m))"
    by (simp add: chunk_groups_concat)
  then obtain g where g: "g \<in> set (chunk_groups fs m)" "f \<in> set g" by auto
  from chunk_groups_in_budget [OF g(1)] have "in_budget m g" by simp
  from in_budget_oversized [OF this g(2) assms(3)] g(1) show ?thesis by simp
qed

lemma chunk_loop_tag:
  "\<forall>c \<in> set chunks. el_tag c = ''div'' \<Longrightarrow>
   \<forall>c \<in> set (chunk_loop m els chunks ct ch tc). el_tag c = ''div''"
proof (induction els arbitrary: chunks ct ch tc)
  case Nil
  then show ?case by (simp add: flush_def current_tag_def)
next
  case (Cons el els)
  have fl: "\<forall>c \<in> set (chunks @ [flush ct ch]). el_tag c = ''div''"
    using Cons.prems by (simp add: flush_def current_tag_def)
  show ?case
    using Cons.IH [OF Cons.prems] Cons.IH [OF fl] by (simp add: Let_def)
qed

text \<open>
  Whatever the fragments, the markups of the chunks are those of the fragments that are
  not skipped, and the tokens of the chunks are those of all the fragments.
\<close>

lemma chunk_markup_concat:
  "concat (map el_html (chunk_elements_by_tokens fs m))
     = concat (map el_html (filter has_tokens fs))"
proof -
  have "concat (map el_html (chunk_elements_by_tokens fs m))
          = concat (map (\<lambda>g. concat (map el_html g)) (chunk_groups fs m))"
    by (simp add: chunk_by_groups html_make_chunk comp_def)
  also have "\<dots> = concat (map el_html (concat (chunk_groups fs m)))"
    by (rule concat_map_groups)
  finally show ?thesis by (simp add: chunk_groups_concat)
qed

lemma chunk_tokens_concat:
  "concat (map (\<lambda>c. split (el_text c)) (chunk_elements_by_tokens fs m))
     = concat (map (\<lambda>f. split (el_text f)) fs)"
proof -
  have "concat (map (\<lambda>c. split (el_text c)) (chunk_elements_by_tokens fs m))
          = concat (map tokens_of (chunk_groups fs m))"
    by (simp add: chunk_by_groups split_make_chunk comp_def)
  also have "\<dots> = tokens_of (filter has_tokens fs)"
    by (simp add: tokens_of_concat [symmetric] chunk_groups_concat)
  finally show ?thesis
    by (simp add: tokens_of_filter) (simp add: tokens_of_def)
qed

text \<open>
  Claim C2. For every sequence of fragments, each with a non-empty text of at least 5
  whitespace-separated tokens (the invariant of a fragment, which the extractor
  establishes), and every \<open>max_tokens\<close>: the markups of the chunks, concatenated in
  order, are the markups of all the fragments, concatenated in order; and the tokens of
  the chunks' texts, in order, are the tokens of the fragments' texts, in order.
\<close>

theorem chunk_roundtrip:
  assumes "\<forall>f \<in> set fs. el_text f \<noteq> [] \<and> 5 \<le> length (split (el_text f))"
  shows "concat (map el_html (chunk_elements_by_tokens fs max_tokens))
      = concat (map el_html fs)
    \<and> concat (map (\<lambda>c. split (el_text c)) (chunk_elements_by_tokens fs max_tokens))
      = concat (map (\<lambda>f. split (el_text f)) fs)"
proof
  from assms have "\<forall>f \<in> set fs. has_tokens f"
    by (auto simp: has_tokens_def)
  then have "filter has_tokens fs = fs" by simp
  with chunk_markup_concat [of fs max_tokens]
  show "concat (map el_html (chunk_elements_by_tokens fs max_tokens)) = concat (map el_html fs)"
    by simp
next
  show "concat (map (\<lambda>c. split (el_text c)) (chunk_elements_by_tokens fs max_tokens))
          = concat (map (\<lambda>f. split (el_text f)) fs)"
    by (rule chunk_tokens_concat)
qed

theorem chunk_roundtrip_witness:
  "length (split (el_text ex_h1)) = 5 \<and> length (split (el_text ex_fox)) = 6
   \<and> length (split (el_text ex_quote)) = 6
   \<and> length (chunk_elements_by_tokens [ex_h1, ex_fox, ex_quote] 11) = 2
   \<and> concat (map el_html (chunk_elements_by_tokens [ex_h1, ex_fox, ex_quote] 11))
     = ''<h1>a b c d e</h1><p>the quick  brown fox jumps over</p><q>to be or not to be</q>''
   \<and> concat (map (\<lambda>c. split (el_text c)) (chunk_elements_by_tokens [ex_h1, ex_fox, ex_quote] 11))
     = [''a'', ''b'', ''c'', ''d'', ''e'', ''the'', ''quick'', ''brown'', ''fox'', ''jumps'',
        ''over'', ''to'', ''be'', ''or'', ''not'', ''to'', ''be'']"
proof -
  have inv: "\<forall>f \<in> set [ex_h1, ex_fox, ex_quote].
      el_text f \<noteq> [] \<and> 5 \<le> length (split (el_text f))"
    by (simp add: split_def isspace_def ex_h1_def ex_fox_def ex_quote_def)
  have counts: "length (split (el_text ex_h1)) = 5 \<and> length (split (el_text ex_fox)) = 6
      \<and> length (split (el_text ex_quote)) = 6"
    by (simp add: split_def isspace_def ex_h1_def ex_fox_def ex_quote_def)
  have two: "length (chunk_elements_by_tokens [ex_h1, ex_fox, ex_quote] 11) = 2"
    by (simp add: chunk_elements_by_tokens_def split_def isspace_def ex_h1_def ex_fox_def
        ex_quote_def)
  from chunk_roundtrip [OF inv, of 11]
  have "concat (map el_html (chunk_elements_by_tokens [ex_h1, ex_fox, ex_quote] 11))
     = ''<h1>a b c d e</h1><p>the quick  brown fox jumps over</p><q>to be or not to be</q>''
   \<and> concat (map (\<lambda>c. split (el_text c)) (chunk_elements_by_tokens [ex_h1, ex_fox, ex_quote] 11))
     = [''a'', ''b'', ''c'', ''d'', ''e'', ''the'', ''quick'', ''brown'', ''fox'', ''jumps'',
        ''over'', ''to'', ''be'', ''or'', ''not'', ''to'', ''be'']"
    by (simp add: split_def isspace_def ex_h1_def ex_fox_def ex_quote_def)
  with counts two show ?thesis by blast
qed


text \<open>
  Claim C3. For every sequence of fragments and every \<open>max_tokens\<close> of at least 1, the
  chunks are the flushed groups of \<open>chunk_groups\<close>, which are runs of the fragments that
  have a token, in their order; every group is non-empty, and the token count of its
  chunk is at most \<open>max_tokens\<close> unless the group is exactly one fragment, whose own token
  count exceeds \<open>max_tokens\<close>; and every fragment whose token count exceeds \<open>max_tokens\<close>
  is a group by itself.
\<close>

theorem chunk_token_bound:
  assumes "1 \<le> max_tokens"
  shows "chunk_elements_by_tokens fs max_tokens = map make_chunk (chunk_groups fs max_tokens)
    \<and> concat (chunk_groups fs max_tokens) = filter has_tokens fs
    \<and> (\<forall>g \<in> set (chunk_groups fs max_tokens).
          g \<noteq> [] \<and>
          (int (length (split (el_text (make_chunk g)))) \<le> max_tokens
           \<or> (\<exists>f. g = [f] \<and> max_tokens < int (length (split (el_text f))))))
    \<and> (\<forall>f \<in> set fs. max_tokens < int (length (split (el_text f)))
          \<longrightarrow> [f] \<in> set (chunk_groups fs max_tokens))"
proof (intro conjI ballI impI)
  show "chunk_elements_by_tokens fs max_tokens = map make_chunk (chunk_groups fs max_tokens)"
    by (rule chunk_by_groups)
  show "concat (chunk_groups fs max_tokens) = filter has_tokens fs"
    by (rule chunk_groups_concat)
next
  fix g assume "g \<in> set (chunk_groups fs max_tokens)"
  from chunk_groups_in_budget [OF this]
  show "g \<noteq> []"
    and "int (length (split (el_text (make_chunk g)))) \<le> max_tokens
         \<or> (\<exists>f. g = [f] \<and> max_tokens < int (length (split (el_text f))))"
    by (simp_all add: in_budget_def split_make_chunk)
next
  fix f assume "f \<in> set fs" "max_tokens < int (length (split (el_text f)))"
  with assms show "[f] \<in> set (chunk_groups fs max_tokens)"
    by (intro oversized_alone) simp_all
qed

theorem chunk_token_bound_witness:
  "(1::int) \<le> 4
   \<and> chunk_groups [ex_p, ex_img, ex_li, ex_h1, ex_b] 4 = [[ex_p, ex_li], [ex_h1], [ex_b]]
   \<and> chunk_elements_by_tokens [ex_p, ex_img, ex_li, ex_h1, ex_b] 4
       = [make_chunk [ex_p, ex_li], make_chunk [ex_h1], make_chunk [ex_b]]
   \<and> length (split (el_text (make_chunk [ex_p, ex_li]))) = 4
   \<and> length (split (el_text ex_h1)) = 5
   \<and> [ex_h1] \<in> set (chunk_groups [ex_p, ex_img, ex_li, ex_h1, ex_b] 4)"
proof -
  have one: "(1::int) \<le> 4" by simp
  have groups: "chunk_groups [ex_p, ex_img, ex_li, ex_h1, ex_b] 4 = [[ex_p, ex_li], [ex_h1], [ex_b]]"
    by (simp add: chunk_groups_def tokens_of_def split_def isspace_def ex_p_def ex_img_def
        ex_li_def ex_h1_def ex_b_def)
  have big: "length (split (el_text ex_h1)) = 5"
    by (simp add: split_def isspace_def ex_h1_def)
  have small: "length (split (el_text (make_chunk [ex_p, ex_li]))) = 4"
    by (simp add: make_chunk_def flush_def tokens_of_def split_def isspace_def ex_p_def ex_li_def)
  note inst = chunk_token_bound [OF one, of "[ex_p, ex_img, ex_li, ex_h1, ex_b]"]
  from inst have chunks: "chunk_elements_by_tokens [ex_p, ex_img, ex_li, ex_h1, ex_b] 4
       = [make_chunk [ex_p, ex_li], make_chunk [ex_h1], make_chunk [ex_b]]"
    by (simp add: groups)
  from inst have "\<forall>f \<in> set [ex_p, ex_img, ex_li, ex_h1, ex_b].
      4 < int (length (split (el_text f)))
      \<longrightarrow> [f] \<in> set (chunk_groups [ex_p, ex_img, ex_li, ex_h1, ex_b] 4)"
    by blast
  with big have alone: "[ex_h1] \<in> set (chunk_groups [ex_p, ex_img, ex_li, ex_h1, ex_b] 4)"
    by simp
  from one groups chunks small big alone show ?thesis by blast
qed

text \<open>
  Claim C9. Every chunk that \<^verbatim>\<open>chunk_elements_by_tokens\<close> returns carries the tag label
  \<^verbatim>\<open>"div"\<close>, whatever the tag labels of the fragments it was assembled from.
\<close>

theorem chunk_tag_is_div:
  "\<forall>c \<in> set (chunk_elements_by_tokens elements max_tokens). el_tag c = ''div''"
  unfolding chunk_elements_by_tokens_def by (rule chunk_loop_tag) simp

theorem chunk_tag_is_div_witness:
  "\<lparr>el_text = ''one two'', el_html = ''<p>one two</p>'', el_tag = ''div''\<rparr>
     \<in> set (chunk_elements_by_tokens [ex_p] 500)
   \<and> el_tag ex_p = ''p''
   \<and> el_tag (last (chunk_elements_by_tokens [ex_p] 500)) = ''div''"
proof -
  have m: "\<lparr>el_text = ''one two'', el_html = ''<p>one two</p>'', el_tag = ''div''\<rparr>
     \<in> set (chunk_elements_by_tokens [ex_p] 500)"
    by (simp add: chunk_elements_by_tokens_def flush_def current_tag_def split_def isspace_def
        ex_p_def)
  then have "last (chunk_elements_by_tokens [ex_p] 500) \<in> set (chunk_elements_by_tokens [ex_p] 500)"
    by (intro last_in_set) auto
  from bspec [OF chunk_tag_is_div this] m show ?thesis by (simp add: ex_p_def)
qed

section \<open>Properties of the fragment extractor\<close>

lemma split_Nil: "split [] = []"
  by (simp add: split_def)

lemma extract_loop_eq:
  "extract_loop str tags acc = acc @ map (fragment_of str) (filter qualifies tags)"
proof (induction tags arbitrary: acc)
  case Nil
  show ?case by simp
next
  case (Cons t tags)
  show ?case
  proof (cases "qualifies t")
    case True
    then have "get_text '' '' t \<noteq> []" by (auto simp: qualifies_def split_Nil)
    with True show ?thesis
      by (simp add: Cons.IH qualifies_def fragment_of_def Let_def)
  next
    case False
    then show ?thesis
      by (auto simp add: Cons.IH qualifies_def Let_def)
  qed
qed

lemma extract_elements_eq:
  "extract_elements str soup
     = map (fragment_of str) (filter qualifies (find_all (body_or_soup soup)))"
  by (simp add: extract_elements_def extract_loop_eq)

lemma tags_of_find_all: "tags_of (Tag n cs) = Tag n cs # find_all (Tag n cs)"
  by (simp add: find_all_def)

lemma find_all_subset: "set (find_all t) \<subseteq> set (tags_of t)"
  by (cases t) (auto simp: find_all_def)

lemma tags_of_trans: "b \<in> set (tags_of x) \<Longrightarrow> set (tags_of b) \<subseteq> set (tags_of x)"
proof (induction x)
  case (NavigableString k s)
  then show ?case by simp
next
  case (Tag n cs)
  from Tag.prems have "b = Tag n cs \<or> (\<exists>c \<in> set cs. b \<in> set (tags_of c))" by auto
  then show ?case
  proof
    assume "b = Tag n cs"
    then show ?thesis by simp
  next
    assume "\<exists>c \<in> set cs. b \<in> set (tags_of c)"
    then obtain c where c: "c \<in> set cs" "b \<in> set (tags_of c)" by blast
    from Tag.IH [OF c] c(1) show ?thesis by auto
  qed
qed

lemma find_all_trans:
  assumes "b \<in> set (find_all r)" "t \<in> set (find_all b)"
  shows "t \<in> set (find_all r)"
proof (cases r)
  case (NavigableString k s)
  with assms(1) show ?thesis by (simp add: find_all_def)
next
  case (Tag n cs)
  with assms(1) obtain c where c: "c \<in> set cs" "b \<in> set (tags_of c)"
    by (auto simp: find_all_def)
  from assms(2) find_all_subset have "t \<in> set (tags_of b)" by blast
  with tags_of_trans [OF c(2)] have "t \<in> set (tags_of c)" by blast
  with c(1) Tag show ?thesis by (auto simp: find_all_def)
qed


text \<open>
  Claim C4. For every parsed page, every fragment that \<^verbatim>\<open>extract_elements\<close> emits has a
  non-empty text with at least 5 whitespace-separated tokens.
\<close>

theorem fragment_floor:
  "\<forall>e \<in> set (extract_elements str soup). el_text e \<noteq> [] \<and> 5 \<le> length (split (el_text e))"
proof
  fix e assume "e \<in> set (extract_elements str soup)"
  then obtain t where t: "qualifies t" "e = fragment_of str t"
    by (auto simp: extract_elements_eq)
  then have five: "5 \<le> length (split (el_text e))"
    by (simp add: qualifies_def fragment_of_def)
  then have "el_text e \<noteq> []" by (auto simp: split_Nil)
  with five show "el_text e \<noteq> [] \<and> 5 \<le> length (split (el_text e))" by simp
qed

theorem fragment_floor_witness:
  "fragment_of ex_str ex_par \<in> set (extract_elements ex_str ex_soup)
   \<and> el_text (fragment_of ex_str ex_par) = ''alpha beta  gamma delta epsilon zeta''
   \<and> 5 \<le> length (split (el_text (fragment_of ex_str ex_par)))"
proof -
  have m: "fragment_of ex_str ex_par \<in> set (extract_elements ex_str ex_soup)"
    by (simp add: extract_elements_def body_or_soup_def find_all_def get_text_def
        interesting_string_types_def string_containers_def strip_def
        split_def isspace_def blacklist_def fragment_of_def ex_soup_def ex_noscript_def ex_par_def
        ex_str_def)
  have t: "el_text (fragment_of ex_str ex_par) = ''alpha beta  gamma delta epsilon zeta''"
    by (simp add: fragment_of_def get_text_def
        interesting_string_types_def string_containers_def strip_def isspace_def ex_par_def)
  from bspec [OF fragment_floor m] m t show ?thesis by simp
qed

text \<open>
  Claim C5. For every parsed page, no emitted fragment has a tag name of the blacklist,
  and no fragment is emitted for a blacklisted element that the traversal meets (an
  element below the body, or below the document where there is no body); but every
  element below such a blacklisted element that is not blacklisted itself and whose
  text has at least 5 tokens is emitted as a fragment of its own.
\<close>

theorem blacklist_skipped_not_pruned:
  "(\<forall>e \<in> set (extract_elements str soup). el_tag e \<notin> blacklist)
   \<and> (\<forall>b \<in> set (find_all (body_or_soup soup)). name b \<in> blacklist \<longrightarrow>
        fragment_of str b \<notin> set (extract_elements str soup)
        \<and> (\<forall>t \<in> set (find_all b).
              name t \<notin> blacklist \<and> 5 \<le> length (split (get_text '' '' t)) \<longrightarrow>
              fragment_of str t \<in> set (extract_elements str soup)))"
proof (intro conjI ballI impI)
  fix e assume "e \<in> set (extract_elements str soup)"
  then show "el_tag e \<notin> blacklist"
    by (auto simp: extract_elements_eq qualifies_def fragment_of_def)
next
  fix b assume "b \<in> set (find_all (body_or_soup soup))" "name b \<in> blacklist"
  then show "fragment_of str b \<notin> set (extract_elements str soup)"
    by (auto simp: extract_elements_eq qualifies_def fragment_of_def)
next
  fix b t
  assume b: "b \<in> set (find_all (body_or_soup soup))"
    and t: "t \<in> set (find_all b)"
    and q: "name t \<notin> blacklist \<and> 5 \<le> length (split (get_text '' '' t))"
  from find_all_trans [OF b t] have "t \<in> set (find_all (body_or_soup soup))" .
  with q show "fragment_of str t \<in> set (extract_elements str soup)"
    by (simp add: extract_elements_eq qualifies_def)
qed

theorem blacklist_skipped_not_pruned_witness:
  "ex_noscript \<in> set (find_all (body_or_soup ex_soup))
   \<and> name ex_noscript \<in> blacklist
   \<and> ex_par \<in> set (find_all ex_noscript)
   \<and> fragment_of ex_str ex_noscript \<notin> set (extract_elements ex_str ex_soup)
   \<and> fragment_of ex_str ex_par \<in> set (extract_elements ex_str ex_soup)"
proof -
  have b: "ex_noscript \<in> set (find_all (body_or_soup ex_soup))"
    by (simp add: body_or_soup_def find_all_def ex_soup_def ex_noscript_def ex_par_def)
  have n: "name ex_noscript \<in> blacklist"
    by (simp add: blacklist_def ex_noscript_def)
  have t: "ex_par \<in> set (find_all ex_noscript)"
    by (simp add: find_all_def ex_noscript_def ex_par_def)
  have q: "name ex_par \<notin> blacklist \<and> 5 \<le> length (split (get_text '' '' ex_par))"
    by (simp add: blacklist_def get_text_def
        interesting_string_types_def string_containers_def strip_def split_def isspace_def ex_par_def)
  from blacklist_skipped_not_pruned [of ex_str ex_soup] b n
  have "fragment_of ex_str ex_noscript \<notin> set (extract_elements ex_str ex_soup)
        \<and> (\<forall>t \<in> set (find_all ex_noscript).
              name t \<notin> blacklist \<and> 5 \<le> length (split (get_text '' '' t)) \<longrightarrow>
              fragment_of ex_str t \<in> set (extract_elements ex_str ex_soup))"
    by blast
  with b n t q show ?thesis by blast
qed

section \<open>Properties of the endpoint\<close>

lemma format_loop_eq:
  "format_loop i docs metas dists acc =
     (if docs = [] \<or> i + length docs \<le> length dists
      then Inr (acc @ entries metas dists i docs) else Inl index_error)"
proof (induction docs arbitrary: i acc)
  case Nil
  show ?case by (simp add: entries_def)
next
  case (Cons d ds)
  show ?case
  proof (cases "i < length dists")
    case True
    then have c: "(ds = [] \<or> Suc i + length ds \<le> length dists)
                 = (i + length (d # ds) \<le> length dists)"
      by (cases ds) auto
    show ?thesis
      using True c by (simp add: Cons.IH entries_def entry_def meta_at_def Let_def)
  next
    case False
    then show ?thesis by simp
  qed
qed

lemma length_entries: "length (entries metas dists i docs) = length docs"
  by (simp add: entries_def)

lemma entries_nth:
  "j < length docs \<Longrightarrow> entries metas dists 0 docs ! j = entry metas dists j (docs ! j)"
  by (simp add: entries_def nth_enumerate_eq)

text \<open>
  Claim C7. For every request whose body lacks \<^verbatim>\<open>url\<close> or \<^verbatim>\<open>query\<close>, or has either
  empty, the endpoint answers 400 with the error object, and the world is as before:
  no call was made, to the network or to anything else.
\<close>

theorem missing_field_400:
  assumes "data ''url'' = None \<or> data ''url'' = Some [] \<or> data ''query'' = None
           \<or> data ''query'' = Some []"
  shows "search_content e data w = ((Error ''URL and Query are required'', 400), w)"
  using assms by (auto simp: search_content_def falsy_def)

theorem missing_field_400_witness:
  "[''query'' \<mapsto> ''greek letters''] ''url'' = None
   \<and> search_content (ex_env ex_soup (Inl ''unused'')) [''query'' \<mapsto> ''greek letters''] ex_world
       = ((Error ''URL and Query are required'', 400), ex_world)"
proof -
  have u: "[''query'' \<mapsto> ''greek letters''] ''url'' = None" by simp
  then have "[''query'' \<mapsto> ''greek letters''] ''url'' = None
      \<or> [''query'' \<mapsto> ''greek letters''] ''url'' = Some []
      \<or> [''query'' \<mapsto> ''greek letters''] ''query'' = None
      \<or> [''query'' \<mapsto> ''greek letters''] ''query'' = Some []"
    by (rule disjI1)
  from missing_field_400 [OF this] u show ?thesis by blast
qed

text \<open>
  Claim C6. For every request with a url and a query whose page yields no chunk, the
  endpoint answers 200 with an empty result list; the only call made is the fetch of
  the page, and the table of collections is as before: no collection was created.
\<close>

theorem empty_page_no_index:
  assumes "data ''url'' = Some url" "url \<noteq> []" "data ''query'' = Some q" "q \<noteq> []"
    and "fetch_chunks e url = Inr []"
  shows "search_content e data w = ((Results [], 200), call (Get url) w)
    \<and> collections (snd (search_content e data w)) = collections w
    \<and> calls (snd (search_content e data w)) = calls w @ [Get url]"
  using assms by (simp add: search_content_def falsy_def search_try_def call_def)

theorem empty_page_no_index_witness:
  "fetch_chunks (ex_env ex_empty_page (Inl ''unused'')) ''http://example.org/'' = Inr []
   \<and> search_content (ex_env ex_empty_page (Inl ''unused'')) ex_request ex_world
       = ((Results [], 200), \<lparr>collections = Map.empty, calls = [Get ''http://example.org/'']\<rparr>)"
proof -
  have u: "ex_request ''url'' = Some ''http://example.org/''" "''http://example.org/'' \<noteq> []"
    and q: "ex_request ''query'' = Some ''greek letters''" "''greek letters'' \<noteq> []"
    by (simp_all add: ex_request_def)
  have f: "fetch_chunks (ex_env ex_empty_page (Inl ''unused'')) ''http://example.org/'' = Inr []"
    by (simp add: fetch_chunks_def ex_env_def ex_empty_page_def decomposed_def
        extract_elements_def body_or_soup_def find_all_def get_text_def
        interesting_string_types_def string_containers_def strip_def split_def
        isspace_def blacklist_def chunk_elements_by_tokens_def)
  from empty_page_no_index [OF u q f, of ex_world] f show ?thesis
    by (simp add: call_def ex_world_def)
qed

text \<open>
  Claim C1 does not hold of the code: \<^verbatim>\<open>delete_collection\<close> is called on the path where
  the query succeeds only (line 158), and the handler (lines 178-180) prints and
  answers. On a page with one qualifying fragment, when \<^verbatim>\<open>collection.query\<close> raises, the
  request ends with status 500, no call to delete the collection has been made, and
  the collection is still in the table of the index engine.
\<close>

theorem teardown_skipped_on_query_failure:
  "fst (search_content (ex_env ex_soup (Inl ''model unavailable'')) ex_request ex_world)
     = (Error ''model unavailable'', 500)
   \<and> calls (snd (search_content (ex_env ex_soup (Inl ''model unavailable'')) ex_request ex_world))
     = [Get ''http://example.org/'', CreateCollection ''search_0123abcd'',
        Add ''search_0123abcd'', Query ''search_0123abcd'', Print ''Error: model unavailable'']
   \<and> collections (snd (search_content (ex_env ex_soup (Inl ''model unavailable'')) ex_request
        ex_world)) ''search_0123abcd'' \<noteq> None"
  by (simp add: search_content_def falsy_def search_try_def index_and_query_def call_def
      fetch_chunks_def ex_env_def ex_request_def ex_world_def ex_soup_def ex_noscript_def
      ex_par_def ex_str_def decomposed_def extract_elements_def body_or_soup_def find_all_def
      get_text_def interesting_string_types_def string_containers_def strip_def split_def
      isspace_def blacklist_def chunk_elements_by_tokens_def
      flush_def current_tag_def Let_def)


lemma first_Cons: "first (x # xs) = Inr x"
  by (simp add: first_def)

text \<open>
  What the formatting has read when it returns: the metadata and the distances that
  it used, and the entries it made of them.
\<close>

lemma format_results_returns:
  assumes "format_results r = Inr rs" "documents r = Some (docs # rest)"
  shows "\<exists>ms ds. rs = entries ms ds 0 docs \<and> (docs = [] \<or> length docs \<le> length ds)
    \<and> (metadatas r = None \<and> ms = replicate (length docs) Map.empty
        \<or> (\<exists>mrest. metadatas r = Some (ms # mrest)))
    \<and> (distances r = None \<and> ds = replicate (length docs) 0
        \<or> (\<exists>drest. distances r = Some (ds # drest)))"
proof -
  obtain ms where ms: "(case metadatas r of None \<Rightarrow> Inr (replicate (length docs) Map.empty)
                        | Some mss \<Rightarrow> first mss) = Inr ms"
    using assms by (auto simp: format_results_def first_Cons split: sum.splits)
  then have m: "metadatas r = None \<and> ms = replicate (length docs) Map.empty
                \<or> (\<exists>mrest. metadatas r = Some (ms # mrest))"
    by (auto simp: first_def split: option.splits list.splits)
  obtain ds where ds: "(case distances r of None \<Rightarrow> Inr (replicate (length docs) 0)
                        | Some xss \<Rightarrow> first xss) = Inr ds"
    using assms ms by (auto simp: format_results_def first_Cons split: sum.splits)
  then have d: "distances r = None \<and> ds = replicate (length docs) 0
                \<or> (\<exists>drest. distances r = Some (ds # drest))"
    by (auto simp: first_def split: option.splits list.splits)
  have "format_loop 0 docs ms ds [] = Inr rs"
    using assms ms ds by (simp add: format_results_def first_Cons)
  then have "rs = entries ms ds 0 docs \<and> (docs = [] \<or> length docs \<le> length ds)"
    by (auto simp: format_loop_eq split: if_splits)
  with m d show ?thesis by blast
qed

lemma format_results_total:
  assumes "documents r = Some (docs # rest)"
    and "metadatas r = None \<or> (\<exists>metas mrest. metadatas r = Some (metas # mrest))"
    and "distances r = None
         \<or> (\<exists>dists drest. distances r = Some (dists # drest) \<and> length docs \<le> length dists)"
  shows "\<exists>rs. format_results r = Inr rs"
  using assms by (auto simp: format_results_def first_Cons format_loop_eq)

text \<open>
  Claim C10, as amended. For every answer of the index with a first list of documents:
  the formatting returns whenever the key \<^verbatim>\<open>metadatas\<close> is absent or has a first list, and
  the key \<^verbatim>\<open>distances\<close> is absent or has a first list no shorter than the documents; and
  whenever the formatting returns, there is one entry for every document, carrying its
  text; an entry whose document has no metadata entry (the key is absent, or the list
  of metadata ends before its index) has the empty string for \<^verbatim>\<open>html\<close> and for \<^verbatim>\<open>tag\<close>; and
  when the key \<^verbatim>\<open>distances\<close> is absent every score is 0.
\<close>

theorem format_total_on_missing:
  assumes "documents r = Some (docs # rest)"
  shows "((metadatas r = None \<or> (\<exists>metas mrest. metadatas r = Some (metas # mrest)))
          \<and> (distances r = None
              \<or> (\<exists>dists drest. distances r = Some (dists # drest) \<and> length docs \<le> length dists))
          \<longrightarrow> (\<exists>rs. format_results r = Inr rs))
    \<and> (\<forall>rs. format_results r = Inr rs \<longrightarrow>
          length rs = length docs
          \<and> (\<forall>i < length docs.
                res_text (rs ! i) = docs ! i
                \<and> ((metadatas r = None
                     \<or> (\<exists>metas mrest. metadatas r = Some (metas # mrest) \<and> length metas \<le> i))
                    \<longrightarrow> res_html (rs ! i) = JStr [] \<and> res_tag (rs ! i) = JStr [])
                \<and> (distances r = None \<longrightarrow> res_score (rs ! i) = 0)))"
proof (intro conjI allI impI)
  assume "(metadatas r = None \<or> (\<exists>metas mrest. metadatas r = Some (metas # mrest)))
          \<and> (distances r = None
              \<or> (\<exists>dists drest. distances r = Some (dists # drest) \<and> length docs \<le> length dists))"
  with assms show "\<exists>rs. format_results r = Inr rs"
    by (intro format_results_total) blast+
next
  fix rs assume "format_results r = Inr rs"
  from format_results_returns [OF this assms]
  show "length rs = length docs" by (auto simp: length_entries)
next
  fix rs i assume rs: "format_results r = Inr rs" and i: "i < length docs"
  from format_results_returns [OF rs assms] obtain ms ds where a:
    "rs = entries ms ds 0 docs"
    "metadatas r = None \<and> ms = replicate (length docs) Map.empty
       \<or> (\<exists>mrest. metadatas r = Some (ms # mrest))"
    "distances r = None \<and> ds = replicate (length docs) 0
       \<or> (\<exists>drest. distances r = Some (ds # drest))"
    by blast
  have e: "rs ! i = entry ms ds i (docs ! i)"
    using a(1) i by (simp add: entries_nth)
  show "res_text (rs ! i) = docs ! i" by (simp add: e entry_def)
  {
    assume "metadatas r = None
            \<or> (\<exists>metas mrest. metadatas r = Some (metas # mrest) \<and> length metas \<le> i)"
    with a(2) i have "meta_at ms i = Map.empty"
      by (auto simp: meta_at_def)
    then show "res_html (rs ! i) = JStr []" and "res_tag (rs ! i) = JStr []"
      by (simp_all add: e entry_def meta_get_def)
  }
  assume "distances r = None"
  with a(3) i show "res_score (rs ! i) = 0"
    by (auto simp: e entry_def)
qed

text \<open>
  The claim as it is written fails: the second document of this answer has no metadata
  entry, and no record is made for it, because the list of distances ends before it
  and \<^verbatim>\<open>distances[i]\<close> (line 173) raises.
\<close>

theorem format_total_on_missing_counterexample:
  "format_results ex_short = Inl index_error"
  by (simp add: format_results_def first_def meta_get_def ex_short_def)

theorem format_total_on_missing_witness:
  "documents ex_answer = Some ([''first text'', ''second text''] # [])
   \<and> format_results ex_answer = Inr [ex_first, ex_second]
   \<and> length [ex_first, ex_second] = length [''first text'', ''second text'']
   \<and> res_html ([ex_first, ex_second] ! 1) = JStr []
   \<and> res_tag ([ex_first, ex_second] ! 1) = JStr []
   \<and> res_score ([ex_first, ex_second] ! 1) = 0"
proof -
  have d: "documents ex_answer = Some ([''first text'', ''second text''] # [])"
    by (simp add: ex_answer_def)
  have v: "format_results ex_answer = Inr [ex_first, ex_second]"
    by (simp add: format_results_def first_def meta_get_def ex_answer_def ex_first_def
        ex_second_def)
  have m: "metadatas ex_answer = None
           \<or> (\<exists>metas mrest. metadatas ex_answer = Some (metas # mrest) \<and> length metas \<le> 1)"
    by (simp add: ex_answer_def)
  have x: "distances ex_answer = None" by (simp add: ex_answer_def)
  from format_total_on_missing [OF d]
  have "\<forall>rs. format_results ex_answer = Inr rs \<longrightarrow>
          length rs = length [''first text'', ''second text'']
          \<and> (\<forall>i < length [''first text'', ''second text''].
                res_text (rs ! i) = [''first text'', ''second text''] ! i
                \<and> ((metadatas ex_answer = None
                     \<or> (\<exists>metas mrest. metadatas ex_answer = Some (metas # mrest)
                           \<and> length metas \<le> i))
                    \<longrightarrow> res_html (rs ! i) = JStr [] \<and> res_tag (rs ! i) = JStr [])
                \<and> (distances ex_answer = None \<longrightarrow> res_score (rs ! i) = 0))"
    by blast
  with v have "length [ex_first, ex_second] = length [''first text'', ''second text'']
      \<and> (\<forall>i < length [''first text'', ''second text''].
            ((metadatas ex_answer = None
                 \<or> (\<exists>metas mrest. metadatas ex_answer = Some (metas # mrest)
                       \<and> length metas \<le> i))
                \<longrightarrow> res_html ([ex_first, ex_second] ! i) = JStr []
                  \<and> res_tag ([ex_first, ex_second] ! i) = JStr [])
            \<and> (distances ex_answer = None \<longrightarrow> res_score ([ex_first, ex_second] ! i) = 0))"
    by blast
  then have "length [ex_first, ex_second] = length [''first text'', ''second text'']
      \<and> res_html ([ex_first, ex_second] ! 1) = JStr []
      \<and> res_tag ([ex_first, ex_second] ! 1) = JStr []
      \<and> res_score ([ex_first, ex_second] ! 1) = 0"
    using m x by auto
  with d v show ?thesis by blast
qed











end
